theory Spec2Isabelle
  imports Complex_Main "HOL-Library.Multiset" "HOL-Library.Word"
begin

section \<open>JavaScript values\<close>

text \<open>
  The values that flow through \<^verbatim>\<open>src/lib/parse.js\<close>: a lookup \<^verbatim>\<open>v[7]\<close> yields a string or
  \<^verbatim>\<open>undefined\<close>, the accumulators start as \<^verbatim>\<open>null\<close>, and \<^verbatim>\<open>!e\<close> yields a boolean.
  Strings are lists of 8-bit characters.
\<close>

datatype jsval = Undefined | Null | Bool bool | Str string

datatype error =
    TypeError string
  | LibraryFailure string  \<comment> \<open>a rejection coming out of the PDF library\<close>

fun truthy :: "jsval \<Rightarrow> bool" where
  "truthy Undefined = False"
| "truthy Null = False"
| "truthy (Bool b) = b"
| "truthy (Str s) = (s \<noteq> [])"

definition js_or :: "jsval \<Rightarrow> jsval \<Rightarrow> jsval" where
  \<comment> \<open>\<^verbatim>\<open>a || b\<close>\<close>
  "js_or a b = (if truthy a then a else b)"

definition js_not :: "jsval \<Rightarrow> jsval" where
  \<comment> \<open>\<^verbatim>\<open>!a\<close>\<close>
  "js_not a = Bool (if truthy a then False else True)"

definition strict_eq :: "jsval \<Rightarrow> jsval \<Rightarrow> bool" where
  \<comment> \<open>\<^verbatim>\<open>a === b\<close> on primitive values: same type and same value\<close>
  "strict_eq a b = (a = b)"

fun js_to_string :: "jsval \<Rightarrow> string" where
  "js_to_string Undefined = ''undefined''"
| "js_to_string Null = ''null''"
| "js_to_string (Bool b) = (if b then ''true'' else ''false'')"
| "js_to_string (Str s) = s"

definition js_plus :: "jsval \<Rightarrow> jsval \<Rightarrow> jsval" where
  \<comment> \<open>\<^verbatim>\<open>a + b\<close> when one operand is a string: string concatenation\<close>
  "js_plus a b = Str (js_to_string a @ js_to_string b)"

definition is_whitespace :: "char \<Rightarrow> bool" where
  \<comment> \<open>white space and line terminators of \<^verbatim>\<open>String.prototype.trim\<close>, within 8-bit characters\<close>
  "is_whitespace c =
     (c = CHR 0x09 \<or> c = CHR 0x0A \<or> c = CHR 0x0B \<or> c = CHR 0x0C \<or> c = CHR 0x0D
      \<or> c = CHR 0x20 \<or> c = CHR 0xA0)"

definition trim :: "string \<Rightarrow> string" where
  "trim s = rev (dropWhile is_whitespace (rev (dropWhile is_whitespace s)))"

definition lower_char :: "char \<Rightarrow> char" where
  "lower_char c =
     (let n = (of_char c :: nat) in if 65 \<le> n \<and> n \<le> 90 then char_of (n + 32) else c)"

definition toLowerCase_opt :: "jsval \<Rightarrow> jsval" where
  \<comment> \<open>\<^verbatim>\<open>t?.toLowerCase()\<close>: \<^verbatim>\<open>undefined\<close> and \<^verbatim>\<open>null\<close> short-circuit to \<^verbatim>\<open>undefined\<close>\<close>
  "toLowerCase_opt t = (case t of Str s \<Rightarrow> Str (map lower_char s) | _ \<Rightarrow> Undefined)"

definition Date_parse :: "(string \<Rightarrow> int option) \<Rightarrow> jsval \<Rightarrow> int option" where
  \<comment> \<open>\<^verbatim>\<open>Date.parse\<close> is a built-in: its value on strings is the parameter \<open>dp\<close>
      (\<open>None\<close> is \<^verbatim>\<open>NaN\<close>, \<open>Some t\<close> a time value in milliseconds). A non-string
      argument is first converted to one of \<^verbatim>\<open>"undefined"\<close>, \<^verbatim>\<open>"null"\<close>, \<^verbatim>\<open>"true"\<close>,
      \<^verbatim>\<open>"false"\<close>, none of which is a date.\<close>
  "Date_parse dp a = (case a of Str s \<Rightarrow> dp s | _ \<Rightarrow> None)"

definition Math_round :: "rat \<Rightarrow> int" where
  \<comment> \<open>nearest integer, ties towards \<open>+\<infinity>\<close>; coordinates are taken as exact rationals\<close>
  "Math_round q = \<lfloor>q + 1 / 2\<rfloor>"


section \<open>Objects with numeric property names\<close>

text \<open>
  Both \<^verbatim>\<open>o\<close> (rows by y) and each row (text by x) are plain objects whose property names
  are rounded numbers. An object is the list of its properties in enumeration order
  (the order of \<^verbatim>\<open>Object.keys\<close> and \<^verbatim>\<open>Object.values\<close>): array indices
  \<open>0 \<dots> 2\<^sup>3\<^sup>2 - 2\<close> first, ascending, then every other name in order of creation.
\<close>

type_synonym 'v obj = "(int \<times> 'v) list"

type_synonym row = "string obj"

definition is_array_index :: "int \<Rightarrow> bool" where
  "is_array_index k = (0 \<le> k \<and> k < 4294967295)"

fun obj_update :: "int \<Rightarrow> 'v \<Rightarrow> 'v obj \<Rightarrow> 'v obj" where
  "obj_update k v [] = []"
| "obj_update k v ((k', v') # ps) =
     (if k' = k then (k, v) # ps else (k', v') # obj_update k v ps)"

fun obj_insert :: "int \<Rightarrow> 'v \<Rightarrow> 'v obj \<Rightarrow> 'v obj" where
  "obj_insert k v [] = [(k, v)]"
| "obj_insert k v ((k', v') # ps) =
     (if is_array_index k \<and> (if is_array_index k' then k < k' else True)
      then (k, v) # (k', v') # ps
      else (k', v') # obj_insert k v ps)"

definition obj_put :: "'v obj \<Rightarrow> int \<Rightarrow> 'v \<Rightarrow> 'v obj" where
  \<comment> \<open>\<^verbatim>\<open>ob[k] = v\<close>: an existing property keeps its place\<close>
  "obj_put ob k v =
     (case map_of ob k of Some _ \<Rightarrow> obj_update k v ob | None \<Rightarrow> obj_insert k v ob)"

definition obj_keys :: "'v obj \<Rightarrow> int list" where
  "obj_keys ob = map fst ob"

definition obj_values :: "'v obj \<Rightarrow> 'v list" where
  "obj_values ob = map snd ob"

definition row_get :: "row \<Rightarrow> int \<Rightarrow> jsval" where
  \<comment> \<open>\<^verbatim>\<open>v[k]\<close>\<close>
  "row_get v k = (case map_of v k of Some s \<Rightarrow> Str s | None \<Rightarrow> Undefined)"

definition first_value :: "row \<Rightarrow> jsval" where
  \<comment> \<open>\<^verbatim>\<open>Object.values(r)[0]\<close>\<close>
  "first_value r = (case obj_values r of [] \<Rightarrow> Undefined | s # _ \<Rightarrow> Str s)"


section \<open>\<^verbatim>\<open>src/lib/reverse.js\<close>\<close>

function reverse_loop :: "nat \<Rightarrow> nat \<Rightarrow> nat \<Rightarrow> 'a list \<Rightarrow> 'a list" where
  "reverse_loop len mid i arr =
     (if i < mid
      then (let j = len - 1 - i in reverse_loop len mid (Suc i) (arr[i := arr ! j, j := arr ! i]))
      else arr)"
  by pat_completeness auto
termination
  by (relation "measure (\<lambda>(len, mid, i, arr). mid - i)") auto

declare reverse_loop.simps [simp del]

definition reverse :: "'a list \<Rightarrow> 'a list" where
  "reverse arr = (let len = length arr; mid = len div 2 in reverse_loop len mid 0 arr)"


section \<open>\<^verbatim>\<open>src/lib/parse.js\<close>: page content to transactions\<close>

text \<open>
  A text item of the PDF library: its string and the two translation entries of its
  transform that the code reads, \<^verbatim>\<open>transform[4]\<close> (x) and \<^verbatim>\<open>transform[5]\<close> (y).
\<close>

record item =
  str :: string
  transform4 :: rat
  transform5 :: rat

record content =
  items :: "item list"

record transaction =
  Date :: jsval
  Type :: jsval
  Description :: jsval
  DailyCashPct :: jsval  \<comment> \<open>\<^verbatim>\<open>'Daily Cash (%)'\<close>\<close>
  DailyCashAmt :: jsval  \<comment> \<open>\<^verbatim>\<open>'Daily Cash ($)'\<close>\<close>
  Amount :: jsval

definition add_item :: "row obj \<Rightarrow> item \<Rightarrow> row obj" where
  \<comment> \<open>one turn of the grouping loop, lines 47 to 62\<close>
  "add_item ob it =
     (let s = trim (str it) in
      if s = [] then ob
      else
        let x = Math_round (transform4 it / 5);
            y = Math_round (transform5 it);
            r = (case map_of ob y of None \<Rightarrow> [] | Some r \<Rightarrow> r)
        in obj_put ob y (obj_put r x s))"

definition group_items :: "item list \<Rightarrow> row obj" where
  "group_items its = foldl add_item [] its"

definition page_rows :: "content \<Rightarrow> row list" where
  \<comment> \<open>line 64: \<^verbatim>\<open>reverse(Object.values(o))\<close>\<close>
  "page_rows c = reverse (obj_values (group_items (items c)))"

text \<open>The accumulators of the row loop: \<^verbatim>\<open>results\<close>, \<^verbatim>\<open>row\<close> and \<^verbatim>\<open>type\<close>.\<close>

record loop_state =
  results :: "transaction list"
  row :: "transaction option"  \<comment> \<open>\<open>None\<close> is \<^verbatim>\<open>null\<close>\<close>
  type :: jsval

text \<open>
  The branch of the loop body that a row takes, decided by the conditions of lines 96
  to 125 in their order.
\<close>

datatype branch =
    TypeMarker  \<comment> \<open>lines 97 to 106\<close>
  | MissingDescription  \<comment> \<open>lines 110 to 113\<close>
  | Continuation  \<comment> \<open>lines 114 to 118\<close>
  | UnparseableDate  \<comment> \<open>lines 122 to 125\<close>
  | NewTransaction  \<comment> \<open>lines 127 to 141\<close>

definition row_branch :: "(string \<Rightarrow> int option) \<Rightarrow> row \<Rightarrow> branch" where
  "row_branch dp v =
     (let keys = obj_keys v; dateCheck = Date_parse dp (row_get v 7) in
      if dateCheck = None \<and> length keys = 1 then TypeMarker
      else
        let description = row_get v 21 in
        if truthy description = False then MissingDescription
        else if length keys = 1 then Continuation
        else
          let date = js_or (row_get v 9) (row_get v 7) in
          if Date_parse dp date = None then UnparseableDate else NewTransaction)"

definition push_row :: "loop_state \<Rightarrow> transaction list" where
  \<comment> \<open>\<^verbatim>\<open>if (row) results.push(row)\<close>\<close>
  "push_row st = (case row st of None \<Rightarrow> results st | Some r \<Rightarrow> results st @ [r])"

definition new_row :: "jsval \<Rightarrow> row \<Rightarrow> transaction" where
  \<comment> \<open>lines 134 to 141\<close>
  "new_row ty v =
     \<lparr> Date = js_or (row_get v 9) (row_get v 7),
       Type = ty,
       Description = row_get v 21,
       DailyCashPct = js_or (row_get v 85) (row_get v 83),
       DailyCashAmt = row_get v 89,
       Amount = js_or (js_or (js_or (js_or (row_get v 111) (row_get v 110)) (row_get v 109))
                  (row_get v 108)) (row_get v 107) \<rparr>"

definition process_row :: "(string \<Rightarrow> int option) \<Rightarrow> loop_state \<Rightarrow> row \<Rightarrow> error + loop_state" where
  "process_row dp st v =
     (case row_branch dp v of
        TypeMarker \<Rightarrow>
          Inr \<lparr> results = push_row st, row = None, type = row_get v 7 \<rparr>
      | MissingDescription \<Rightarrow> Inr st
      | Continuation \<Rightarrow>
          (case row st of
             None \<Rightarrow> Inl (TypeError ''Cannot read properties of null (reading Description)'')
           | Some r \<Rightarrow>
               Inr (st\<lparr> row :=
                 Some (r\<lparr> Description :=
                   js_plus (Description r) (js_plus (Str [CHR 0x0A]) (row_get v 21)) \<rparr>) \<rparr>))
      | UnparseableDate \<Rightarrow> Inr st
      | NewTransaction \<Rightarrow>
          Inr \<lparr> results = push_row st, row = Some (new_row (type st) v),
                type = type st \<rparr>)"

fun process_rows :: "(string \<Rightarrow> int option) \<Rightarrow> loop_state \<Rightarrow> row list \<Rightarrow> error + loop_state" where
  "process_rows dp st [] = Inr st"
| "process_rows dp st (v # vs) =
     (case process_row dp st v of Inl e \<Rightarrow> Inl e | Inr st' \<Rightarrow> process_rows dp st' vs)"

definition processPageContent :: "(string \<Rightarrow> int option) \<Rightarrow> content \<Rightarrow> error + transaction list" where
  "processPageContent dp c =
     (let rows = page_rows c in
      if length rows < 3 then Inr []
      else
        let rows = take (length rows - 2) rows;
            header = take 3 rows;
            rows = drop 3 rows;
            statementText = first_value (header ! 0)
        in
        if length header < 2
        then Inl (TypeError ''Cannot convert undefined or null to object'')
        else
          let customerText = first_value (header ! 1) in
          if strict_eq (js_not (toLowerCase_opt statementText)) (Str ''statement'') then Inr []
          else if strict_eq (js_not (toLowerCase_opt customerText)) (Str ''apple card customer'')
          then Inr []
          else
            (case process_rows dp \<lparr> results = [], row = None, type = Null \<rparr> rows of
               Inl e \<Rightarrow> Inl e
             | Inr st \<Rightarrow> Inr (push_row st)))"


section \<open>\<^verbatim>\<open>src/lib/parse.js\<close>: the pages of a document\<close>

text \<open>
  The document handle as the code uses it: \<^verbatim>\<open>doc.numPages\<close>, \<^verbatim>\<open>doc.getPage(i)\<close> and
  \<^verbatim>\<open>page.getTextContent()\<close>. Each awaited promise either resolves or rejects.
\<close>

record page =
  getTextContent :: "error + content"

record document =
  numPages :: nat
  getPage :: "nat \<Rightarrow> error + page"

function parse_pages ::
  "(string \<Rightarrow> int option) \<Rightarrow> document \<Rightarrow> nat \<Rightarrow> transaction list \<Rightarrow> error + transaction list"
where
  "parse_pages dp doc i acc =
     (if i < numPages doc
      then
        (case getPage doc i of
           Inl e \<Rightarrow> Inl e
         | Inr pg \<Rightarrow>
             (case getTextContent pg of
                Inl e \<Rightarrow> Inl e
              | Inr c \<Rightarrow>
                  (case processPageContent dp c of
                     Inl e \<Rightarrow> Inl e
                   | Inr pageResults \<Rightarrow> parse_pages dp doc (Suc i) (acc @ pageResults))))
      else Inr acc)"
  by pat_completeness auto
termination
  by (relation "measure (\<lambda>(dp, doc, i, acc). numPages doc - i)") auto

declare parse_pages.simps [simp del]

definition parseStatement :: "(string \<Rightarrow> int option) \<Rightarrow> document \<Rightarrow> error + transaction list" where
  \<comment> \<open>\<^verbatim>\<open>parse\<close> of \<^verbatim>\<open>src/lib/parse.js\<close>, under the name \<^verbatim>\<open>lib/main.js\<close> imports it by\<close>
  "parseStatement dp doc = parse_pages dp doc 1 []"

text \<open>
  The document proxy that \<^verbatim>\<open>pdfjs-dist\<close> hands to the code for a document whose pages
  have the given text contents. The library is not part of the repository; its
  \<^verbatim>\<open>getPage(pageNumber)\<close> counts pages from 1 and rejects every other number.
\<close>

definition pdf_document :: "content list \<Rightarrow> document" where
  "pdf_document pages =
     \<lparr> numPages = length pages,
       getPage = (\<lambda>n. if 1 \<le> n \<and> n \<le> length pages
                       then Inr \<lparr> getTextContent = Inr (pages ! (n - 1)) \<rparr>
                       else Inl (LibraryFailure ''Invalid page request.'')) \<rparr>"


section \<open>\<^verbatim>\<open>lib/main.js\<close>: several statements\<close>

text \<open>
  The values \<^verbatim>\<open>parse\<close> can be called with. An array is the list of its slots, index 0
  first, as long as its \<^verbatim>\<open>length\<close>; a slot is an element or a hole (\<open>None\<close>), as in
  \<^verbatim>\<open>[a, , b]\<close>.
\<close>

datatype js_input =
    Uint8Array "8 word list"
  | Array "js_input option list"
  | Undef  \<comment> \<open>\<^verbatim>\<open>undefined\<close>\<close>
  | Other  \<comment> \<open>any other value that is neither a \<^verbatim>\<open>Uint8Array\<close> nor an array\<close>

fun is_Uint8Array :: "js_input \<Rightarrow> bool" where
  \<comment> \<open>\<^verbatim>\<open>x instanceof Uint8Array\<close>\<close>
  "is_Uint8Array (Uint8Array b) = True"
| "is_Uint8Array (Array xs) = False"
| "is_Uint8Array Undef = False"
| "is_Uint8Array Other = False"

fun every :: "(js_input \<Rightarrow> bool) \<Rightarrow> js_input option list \<Rightarrow> bool" where
  \<comment> \<open>\<^verbatim>\<open>Array.prototype.every\<close>: the callback is called on the elements present, never on
      a hole\<close>
  "every f [] = True"
| "every f (None # xs) = every f xs"
| "every f (Some x # xs) = (if f x then every f xs else False)"

fun element :: "js_input option \<Rightarrow> js_input" where
  \<comment> \<open>\<^verbatim>\<open>statements[i]\<close>: a hole reads as \<^verbatim>\<open>undefined\<close>\<close>
  "element None = Undef"
| "element (Some x) = x"

definition validateInput :: "js_input \<Rightarrow> error + js_input option list" where
  "validateInput src =
     (case src of
        Uint8Array b \<Rightarrow> Inr [Some src]
      | Array xs \<Rightarrow>
          if every is_Uint8Array xs then Inr xs
          else Inl (TypeError ''Invalid argument. Array must contain only Uint8Arrays.'')
      | Undef \<Rightarrow>
          Inl (TypeError
            ''Invalid argument. Must be either a Uint8Array or an array of Uint8Arrays.'')
      | Other \<Rightarrow>
          Inl (TypeError
            ''Invalid argument. Must be either a Uint8Array or an array of Uint8Arrays.''))"

definition comparator :: "(string \<Rightarrow> int option) \<Rightarrow> transaction \<Rightarrow> transaction \<Rightarrow> int option" where
  \<comment> \<open>\<^verbatim>\<open>dateA - dateB\<close>; \<open>None\<close> is \<^verbatim>\<open>NaN\<close>\<close>
  "comparator dp a b =
     (case Date_parse dp (Date a) of
        None \<Rightarrow> None
      | Some dateA \<Rightarrow>
          (case Date_parse dp (Date b) of None \<Rightarrow> None | Some dateB \<Rightarrow> Some (dateA - dateB)))"

text \<open>
  \<^verbatim>\<open>Array.prototype.sort\<close> is a built-in. The language standard makes it stable and reads
  a \<^verbatim>\<open>NaN\<close> from the comparison function as \<open>0\<close>; for a consistent comparison function
  that fixes the outcome. It is modelled by a stable insertion sort.
\<close>

definition SortCompare :: "('a \<Rightarrow> 'a \<Rightarrow> int option) \<Rightarrow> 'a \<Rightarrow> 'a \<Rightarrow> int" where
  "SortCompare cmp x y = (case cmp x y of None \<Rightarrow> 0 | Some v \<Rightarrow> v)"

fun sort_insert :: "('a \<Rightarrow> 'a \<Rightarrow> int option) \<Rightarrow> 'a \<Rightarrow> 'a list \<Rightarrow> 'a list" where
  "sort_insert cmp x [] = [x]"
| "sort_insert cmp x (y # ys) =
     (if SortCompare cmp x y \<le> 0 then x # y # ys else y # sort_insert cmp x ys)"

definition js_sort :: "('a \<Rightarrow> 'a \<Rightarrow> int option) \<Rightarrow> 'a list \<Rightarrow> 'a list" where
  "js_sort cmp xs = foldr (sort_insert cmp) xs []"

text \<open>
  The loop over the statements, lines 90 to 107: it runs over the indices below
  \<^verbatim>\<open>statements.length\<close>, holes included. \<open>gd\<close> is \<^verbatim>\<open>pdf.getDocument(_).promise\<close> of the
  PDF library. Beside the accumulated transactions the loop carries the list of the
  values handed to \<open>gd\<close> so far, so that "nothing was decoded" can be said.
\<close>

fun parse_statements ::
  "(string \<Rightarrow> int option) \<Rightarrow> (js_input \<Rightarrow> error + document) \<Rightarrow> js_input option list \<Rightarrow>
     transaction list \<Rightarrow> js_input list \<Rightarrow> (error + transaction list) \<times> js_input list"
where
  "parse_statements dp gd [] acc decoded = (Inr acc, decoded)"
| "parse_statements dp gd (s # ss) acc decoded =
     (case gd (element s) of
        Inl e \<Rightarrow> (Inl e, decoded @ [element s])
      | Inr doc \<Rightarrow>
          (case parseStatement dp doc of
             Inl e \<Rightarrow> (Inl e, decoded @ [element s])
           | Inr data \<Rightarrow> parse_statements dp gd ss (acc @ data) (decoded @ [element s])))"

definition parse ::
  "(string \<Rightarrow> int option) \<Rightarrow> (js_input \<Rightarrow> error + document) \<Rightarrow> js_input \<Rightarrow>
     (error + transaction list) \<times> js_input list"
where
  "parse dp gd src =
     (case validateInput src of
        Inl e \<Rightarrow> (Inl e, [])
      | Inr statements \<Rightarrow>
          (case parse_statements dp gd statements [] [] of
             (Inl e, decoded) \<Rightarrow> (Inl e, decoded)
           | (Inr rs, decoded) \<Rightarrow> (Inr (js_sort (comparator dp) rs), decoded)))"

section \<open>Predicates of the specification\<close>

text \<open>What grouping guarantees of a row: no text in it is empty (line 49 drops those).\<close>

definition row_wf :: "row \<Rightarrow> bool" where
  "row_wf v = list_all (\<lambda>s. s \<noteq> []) (obj_values v)"

definition nonempty_str :: "jsval \<Rightarrow> bool" where
  "nonempty_str a = (case a of Str s \<Rightarrow> s \<noteq> [] | _ \<Rightarrow> False)"

definition str_or_null :: "jsval \<Rightarrow> bool" where
  "str_or_null a = (case a of Str s \<Rightarrow> True | Null \<Rightarrow> True | _ \<Rightarrow> False)"

definition str_or_undefined :: "jsval \<Rightarrow> bool" where
  \<comment> \<open>\<^verbatim>\<open>undefined\<close> or a non-empty string\<close>
  "str_or_undefined a = (case a of Undefined \<Rightarrow> True | Str s \<Rightarrow> s \<noteq> [] | _ \<Rightarrow> False)"

definition null_or_str :: "jsval \<Rightarrow> bool" where
  \<comment> \<open>\<^verbatim>\<open>null\<close> or a non-empty string\<close>
  "null_or_str a = (case a of Null \<Rightarrow> True | Str s \<Rightarrow> s \<noteq> [] | _ \<Rightarrow> False)"

definition produced :: "(string \<Rightarrow> int option) \<Rightarrow> transaction \<Rightarrow> bool" where
  \<comment> \<open>the shape of every record the row loop builds\<close>
  "produced dp t =
     (nonempty_str (Date t) \<and> Date_parse dp (Date t) \<noteq> None \<and> nonempty_str (Description t)
      \<and> str_or_undefined (DailyCashPct t)
      \<and> str_or_undefined (DailyCashAmt t) \<and> str_or_undefined (Amount t))"

definition state_ok :: "(string \<Rightarrow> int option) \<Rightarrow> loop_state \<Rightarrow> bool" where
  \<comment> \<open>the invariant of the row loop\<close>
  "state_ok dp st =
     (list_all (produced dp) (results st)
      \<and> (case row st of None \<Rightarrow> True | Some r \<Rightarrow> produced dp r))"

text \<open>
  The rows between header and footer, which the row loop runs over (lines 71 and 74), and
  the rows whose only text, if they have just one, sits at bucket 7, where line 103 reads
  the type.
\<close>

definition body_rows :: "content \<Rightarrow> row list" where
  "body_rows c = drop 3 (take (length (page_rows c) - 2) (page_rows c))"

definition marker_at_7 :: "row \<Rightarrow> bool" where
  "marker_at_7 v =
     (if length (obj_keys v) = 1
      then (case map_of v 7 of Some s \<Rightarrow> True | None \<Rightarrow> False)
      else True)"

definition types_ok :: "loop_state \<Rightarrow> bool" where
  \<comment> \<open>the invariant of the row loop on such rows\<close>
  "types_ok st =
     (list_all (\<lambda>t. null_or_str (Type t)) (results st)
      \<and> (case row st of None \<Rightarrow> True | Some r \<Rightarrow> null_or_str (Type r))
      \<and> null_or_str (type st))"

text \<open>
  The fallback chains in the words of the specification: the text of the first bucket of
  the list that holds a non-empty one, \<^verbatim>\<open>undefined\<close> when none does.
\<close>

fun first_nonempty :: "row \<Rightarrow> int list \<Rightarrow> jsval" where
  "first_nonempty v [] = Undefined"
| "first_nonempty v (k # ks) =
     (case map_of v k of
        Some s \<Rightarrow> if s \<noteq> [] then Str s else first_nonempty v ks
      | None \<Rightarrow> first_nonempty v ks)"

definition is_Uint8Array_array :: "js_input \<Rightarrow> bool" where
  \<comment> \<open>a collection whose elements are all byte buffers: reading any index below its
      length gives one\<close>
  "is_Uint8Array_array src =
     (case src of Array xs \<Rightarrow> list_all (\<lambda>x. is_Uint8Array (element x)) xs | _ \<Rightarrow> False)"

definition parsed_date :: "(string \<Rightarrow> int option) \<Rightarrow> transaction \<Rightarrow> int" where
  \<comment> \<open>the sort key: \<^verbatim>\<open>Date.parse(t.Date)\<close> where it is a number\<close>
  "parsed_date dp t = (case Date_parse dp (Date t) of Some d \<Rightarrow> d | None \<Rightarrow> 0)"

text \<open>
  Pages 1 to \<open>N - 1\<close> of a document in one pass, stopping at the first failure: what the
  page loop computes on a document proxy of the PDF library.
\<close>

fun collect_pages ::
  "(string \<Rightarrow> int option) \<Rightarrow> content list \<Rightarrow> transaction list \<Rightarrow> error + transaction list"
where
  "collect_pages dp [] acc = Inr acc"
| "collect_pages dp (c # cs) acc =
     (case processPageContent dp c of
        Inl e \<Rightarrow> Inl e
      | Inr pageResults \<Rightarrow> collect_pages dp cs (acc @ pageResults))"


section \<open>Example inputs\<close>

text \<open>
  A stand-in for \<^verbatim>\<open>Date.parse\<close> in the examples: its values, in a UTC environment, on the
  two date strings the examples use, and \<^verbatim>\<open>NaN\<close> on their other texts.
\<close>

definition example_Date_parse :: "string \<Rightarrow> int option" where
  "example_Date_parse s =
     (if s = ''03/01/2024'' then Some 1709251200000
      else if s = ''03/02/2024'' then Some 1709337600000
      else None)"

definition mk_item :: "string \<Rightarrow> rat \<Rightarrow> rat \<Rightarrow> item" where
  "mk_item s x y = \<lparr> str = s, transform4 = x, transform5 = y \<rparr>"

text \<open>A page with six rows whose first rows read Foo, Bar, Baz.\<close>

definition foreign_page :: content where
  "foreign_page = \<lparr> items =
     [ mk_item ''Foo'' 36 700, mk_item ''Bar'' 36 (1379 / 2), mk_item ''Baz'' 36 680,
       mk_item ''03/01/2024'' 45 660, mk_item ''Coffee Shop'' 105 660,
       mk_item '' $4.50 '' 555 660,
       mk_item ''Page 2'' 300 40, mk_item ''Goldman Sachs'' 36 30 ] \<rparr>"

text \<open>
  A statement page: the header, a type marker, a transaction, a line with only a
  description fragment, a second transaction, and the footer.
\<close>

definition continuation_page :: content where
  "continuation_page = \<lparr> items =
     [ mk_item ''Statement'' 36 700, mk_item ''Apple Card Customer'' 36 690,
       mk_item ''Transactions'' 36 680,
       mk_item ''Purchases'' 36 670,
       mk_item ''03/01/2024'' 45 660, mk_item ''Coffee Shop'' 105 660,
       mk_item ''$4.50'' 555 660,
       mk_item ''Store #1234'' 105 650,
       mk_item ''03/02/2024'' 45 640, mk_item ''Book Store'' 105 640,
       mk_item ''2%'' 425 640, mk_item ''$0.40'' 445 640, mk_item ''$20.00'' 548 640,
       mk_item ''Page 2'' 300 40, mk_item ''Goldman Sachs'' 36 30 ] \<rparr>"

text \<open>A page with exactly three rows, and one with two.\<close>

definition three_row_page :: content where
  "three_row_page = \<lparr> items =
     [ mk_item ''Statement'' 36 700, mk_item ''Apple Card Customer'' 36 690,
       mk_item ''Page 3'' 300 40 ] \<rparr>"

definition two_row_page :: content where
  "two_row_page = \<lparr> items =
     [ mk_item ''Apple Card'' 36 700, mk_item ''Page 1'' 300 40 ] \<rparr>"

text \<open>A statement page with one transaction that has a date and a description only.\<close>

definition bare_page :: content where
  "bare_page = \<lparr> items =
     [ mk_item ''Statement'' 36 700, mk_item ''Apple Card Customer'' 36 690,
       mk_item ''Transactions'' 36 680,
       mk_item ''03/01/2024'' 45 660, mk_item ''Coffee Shop'' 105 660,
       mk_item ''Page 2'' 300 40, mk_item ''Goldman Sachs'' 36 30 ] \<rparr>"

text \<open>A statement page with a type marker and one transaction under it.\<close>

definition purchases_page :: content where
  "purchases_page = \<lparr> items =
     [ mk_item ''Statement'' 36 700, mk_item ''Apple Card Customer'' 36 690,
       mk_item ''Transactions'' 36 680,
       mk_item ''Purchases'' 36 670,
       mk_item ''03/01/2024'' 45 660, mk_item ''Coffee Shop'' 105 660,
       mk_item ''4.50'' 555 660,
       mk_item ''Page 2'' 300 40, mk_item ''Goldman Sachs'' 36 30 ] \<rparr>"

text \<open>A two-page document: an empty cover page, then a statement page.\<close>

definition cover_page :: content where
  "cover_page = \<lparr> items = [] \<rparr>"

definition two_page_document :: document where
  "two_page_document = pdf_document [cover_page, bare_page]"

text \<open>
  Two payloads for the aggregator. Each decodes to a document whose first page holds
  transactions; the first has one of 2 March and one of 1 March, the second one of
  1 March.
\<close>

definition march_page :: content where
  "march_page = \<lparr> items =
     [ mk_item ''Statement'' 36 700, mk_item ''Apple Card Customer'' 36 690,
       mk_item ''Transactions'' 36 680,
       mk_item ''03/02/2024'' 45 660, mk_item ''Book Store'' 105 660,
       mk_item ''03/01/2024'' 45 650, mk_item ''Coffee Shop'' 105 650,
       mk_item ''Page 1'' 300 40, mk_item ''Goldman Sachs'' 36 30 ] \<rparr>"

definition other_page :: content where
  "other_page = \<lparr> items =
     [ mk_item ''Statement'' 36 700, mk_item ''Apple Card Customer'' 36 690,
       mk_item ''Transactions'' 36 680,
       mk_item ''03/01/2024'' 45 660, mk_item ''Bakery'' 105 660,
       mk_item ''Page 1'' 300 40, mk_item ''Goldman Sachs'' 36 30 ] \<rparr>"

definition example_getDocument :: "js_input \<Rightarrow> error + document" where
  "example_getDocument src =
     (if src = Uint8Array [1] then Inr (pdf_document [march_page, cover_page])
      else if src = Uint8Array [2] then Inr (pdf_document [other_page, cover_page])
      else Inl (LibraryFailure ''Invalid PDF structure.''))"

definition tx :: "string \<Rightarrow> jsval \<Rightarrow> string \<Rightarrow> transaction" where
  \<comment> \<open>a record with no daily cash and no amount\<close>
  "tx d ty desc =
     \<lparr> Date = Str d, Type = ty, Description = Str desc, DailyCashPct = Undefined,
       DailyCashAmt = Undefined, Amount = Undefined \<rparr>"


section \<open>The in-place reversal reverses\<close>

lemma reverse_loop_rev:
  "length arr = len \<Longrightarrow> length orig = len \<Longrightarrow> mid = len div 2 \<Longrightarrow> i \<le> mid \<Longrightarrow>
   (\<And>k. k < len \<Longrightarrow> arr ! k = (if k < i \<or> len - i \<le> k then orig ! (len - 1 - k) else orig ! k)) \<Longrightarrow>
   reverse_loop len mid i arr = rev orig"
proof (induction len mid i arr rule: reverse_loop.induct)
  case (1 len mid i arr)
  show ?case
  proof (cases "i < mid")
    case True
    define j where "j = len - 1 - i"
    define arr' where "arr' = arr[i := arr ! j, j := arr ! i]"
    have ij: "i < j" "j < len" "i < len"
      using True "1.prems"(3) by (auto simp: j_def)
    have len': "length arr' = len"
      using "1.prems"(1) by (simp add: arr'_def)
    have nth': "arr' ! k = (if k < Suc i \<or> len - Suc i \<le> k then orig ! (len - 1 - k) else orig ! k)"
      if "k < len" for k
    proof -
      consider "k = i" | "k = j" | "k \<noteq> i" "k \<noteq> j" by blast
      then show ?thesis
      proof cases
        case 1
        then have "arr' ! k = arr ! j"
          using ij "1.prems"(1) by (simp add: arr'_def)
        also have "\<dots> = orig ! j"
          using "1.prems"(5)[of j] ij by (auto simp: j_def)
        finally show ?thesis using 1 by (simp add: j_def)
      next
        case 2
        then have "arr' ! k = arr ! i"
          using ij "1.prems"(1) by (simp add: arr'_def)
        also have "\<dots> = orig ! i"
          using "1.prems"(5)[of i] ij by (auto simp: j_def)
        finally show ?thesis using 2 ij by (auto simp: j_def)
      next
        case 3
        then have "arr' ! k = arr ! k"
          by (simp add: arr'_def)
        then show ?thesis
          using "1.prems"(5)[OF that] 3 ij that by (auto simp: j_def)
      qed
    qed
    have "reverse_loop len mid (Suc i) arr' = rev orig"
      unfolding arr'_def j_def
    proof (rule "1.IH"[OF True refl])
      show "length (arr[i := arr ! (len - 1 - i), len - 1 - i := arr ! i]) = len"
        using "1.prems"(1) by simp
      show "length orig = len" by (rule "1.prems"(2))
      show "mid = len div 2" by (rule "1.prems"(3))
      show "Suc i \<le> mid" using True by simp
      show "arr[i := arr ! (len - 1 - i), len - 1 - i := arr ! i] ! k =
            (if k < Suc i \<or> len - Suc i \<le> k then orig ! (len - 1 - k) else orig ! k)"
        if "k < len" for k
        using nth'[OF that] by (simp add: arr'_def j_def)
    qed
    then show ?thesis
      using True by (subst reverse_loop.simps) (simp add: j_def arr'_def Let_def)
  next
    case False
    then have im: "i = mid" using "1.prems"(4) by simp
    have "arr = rev orig"
    proof (rule nth_equalityI)
      show "length arr = length (rev orig)" using "1.prems"(1,2) by simp
    next
      fix k assume "k < length arr"
      then have k: "k < len" using "1.prems"(1) by simp
      have "len - 1 - k = k" if "\<not> (k < i \<or> len - i \<le> k)"
        using that im "1.prems"(3) k by auto
      then have "arr ! k = orig ! (len - 1 - k)"
        using "1.prems"(5)[OF k] by auto
      then show "arr ! k = rev orig ! k"
        using k "1.prems"(2) by (simp add: rev_nth)
    qed
    then show ?thesis using False by (subst reverse_loop.simps) simp
  qed
qed

lemma reverse_eq_rev: "reverse arr = rev arr"
  unfolding reverse_def Let_def
  by (rule reverse_loop_rev) auto


section \<open>Grouping yields rows without empty texts\<close>

lemma obj_update_all:
  "list_all P (obj_values ps) \<Longrightarrow> P v \<Longrightarrow> list_all P (obj_values (obj_update k v ps))"
  by (induction ps) (auto simp: obj_values_def)

lemma obj_insert_all:
  "list_all P (obj_values ps) \<Longrightarrow> P v \<Longrightarrow> list_all P (obj_values (obj_insert k v ps))"
  by (induction ps) (auto simp: obj_values_def)

lemma obj_put_all:
  "list_all P (obj_values ob) \<Longrightarrow> P v \<Longrightarrow> list_all P (obj_values (obj_put ob k v))"
  by (simp add: obj_put_def obj_update_all obj_insert_all split: option.splits)

lemma row_wf_put: "row_wf r \<Longrightarrow> s \<noteq> [] \<Longrightarrow> row_wf (obj_put r x s)"
  unfolding row_wf_def by (rule obj_put_all)

lemma row_wf_Nil: "row_wf []"
  by (simp add: row_wf_def obj_values_def)

lemma map_of_obj_values: "map_of ob y = Some r \<Longrightarrow> r \<in> set (obj_values ob)"
  by (force simp: obj_values_def dest: map_of_SomeD)

lemma add_item_wf:
  assumes "list_all row_wf (obj_values ob)"
  shows "list_all row_wf (obj_values (add_item ob it))"
proof (cases "trim (str it) = []")
  case True
  then show ?thesis using assms by (simp add: add_item_def)
next
  case False
  define y where "y = Math_round (transform5 it)"
  define x where "x = Math_round (transform4 it / 5)"
  define r where "r = (case map_of ob y of None \<Rightarrow> [] | Some r \<Rightarrow> r)"
  have "row_wf r"
  proof (cases "map_of ob y")
    case None
    then show ?thesis by (simp add: r_def row_wf_Nil)
  next
    case (Some r')
    then have "r' \<in> set (obj_values ob)" by (rule map_of_obj_values)
    then show ?thesis using assms Some by (simp add: r_def list_all_iff)
  qed
  then have wf: "row_wf (obj_put r x (trim (str it)))"
    using False by (rule row_wf_put)
  have eq: "add_item ob it = obj_put ob y (obj_put r x (trim (str it)))"
    using False by (simp add: add_item_def Let_def y_def r_def x_def)
  show ?thesis
    unfolding eq using assms wf by (rule obj_put_all)
qed

lemma foldl_add_item_wf:
  "list_all row_wf (obj_values ob) \<Longrightarrow> list_all row_wf (obj_values (foldl add_item ob its))"
  by (induction its arbitrary: ob) (simp_all add: add_item_wf)

lemma page_rows_wf: "list_all row_wf (page_rows c)"
  using foldl_add_item_wf[of "[]" "items c"]
  by (simp add: page_rows_def reverse_eq_rev group_items_def obj_values_def)


section \<open>The row loop\<close>

lemma row_get_wf: "row_wf v \<Longrightarrow> str_or_undefined (row_get v k)"
proof (cases "map_of v k")
  case None
  then show ?thesis by (simp add: row_get_def str_or_undefined_def)
next
  case (Some s)
  assume "row_wf v"
  moreover from Some have "s \<in> set (obj_values v)" by (rule map_of_obj_values)
  ultimately have "s \<noteq> []" by (auto simp: row_wf_def list_all_iff)
  then show ?thesis using Some by (simp add: row_get_def str_or_undefined_def)
qed

lemma js_or_wf: "str_or_undefined a \<Longrightarrow> str_or_undefined b \<Longrightarrow> str_or_undefined (js_or a b)"
  by (simp add: js_or_def)

lemma parsed_nonempty: "str_or_undefined a \<Longrightarrow> Date_parse dp a \<noteq> None \<Longrightarrow> nonempty_str a"
  by (cases a) (simp_all add: str_or_undefined_def nonempty_str_def Date_parse_def)

lemma truthy_nonempty: "str_or_undefined a \<Longrightarrow> truthy a \<Longrightarrow> nonempty_str a"
  by (cases a) (simp_all add: str_or_undefined_def nonempty_str_def)

lemma new_row_produced:
  assumes "row_wf v" "truthy (row_get v 21)"
    "Date_parse dp (js_or (row_get v 9) (row_get v 7)) \<noteq> None"
  shows "produced dp (new_row ty v)"
  using assms
  by (simp add: produced_def new_row_def row_get_wf js_or_wf parsed_nonempty truthy_nonempty)

lemma push_row_ok: "state_ok dp st \<Longrightarrow> list_all (produced dp) (push_row st)"
  by (auto simp: state_ok_def push_row_def split: option.splits)

lemma single_column: "length (obj_keys v) = 1 \<Longrightarrow> \<exists>k s. v = [(k, s)]"
  by (cases v) (auto simp: obj_keys_def)

lemma row_branch_single:
  assumes "length (obj_keys v) = 1"
  shows "row_branch dp v =
    (if Date_parse dp (row_get v 7) = None then TypeMarker else MissingDescription)"
proof -
  obtain k s where v: "v = [(k, s)]" using single_column[OF assms] by blast
  show ?thesis
  proof (cases "Date_parse dp (row_get v 7) = None")
    case True
    then show ?thesis using assms by (simp add: row_branch_def Let_def)
  next
    case False
    then have "k = 7" by (auto simp: v row_get_def Date_parse_def split: if_splits)
    then have "row_get v 21 = Undefined" by (simp add: v row_get_def)
    then show ?thesis using False by (simp add: row_branch_def Let_def)
  qed
qed

lemma row_branch_not_Continuation: "row_branch dp v \<noteq> Continuation"
proof (cases "length (obj_keys v) = 1")
  case True
  then show ?thesis by (simp add: row_branch_single)
next
  case False
  then show ?thesis by (simp add: row_branch_def Let_def)
qed

lemma row_branch_NewTransaction:
  "row_branch dp v = NewTransaction \<Longrightarrow>
     truthy (row_get v 21) \<and> Date_parse dp (js_or (row_get v 9) (row_get v 7)) \<noteq> None"
  by (simp add: row_branch_def Let_def split: if_splits)

lemma process_row_total: "\<exists>st'. process_row dp st v = Inr st'"
  using row_branch_not_Continuation[of dp v]
  by (cases "row_branch dp v") (simp_all add: process_row_def)

lemma process_row_ok:
  assumes "row_wf v" "state_ok dp st" "process_row dp st v = Inr st'"
  shows "state_ok dp st'"
proof (cases "row_branch dp v")
  case TypeMarker
  then have "st' = \<lparr> results = push_row st, row = None, type = row_get v 7 \<rparr>"
    using assms(3) by (simp add: process_row_def)
  then show ?thesis
    using push_row_ok[OF assms(2)] by (simp add: state_ok_def)
next
  case MissingDescription
  then show ?thesis using assms by (simp add: process_row_def)
next
  case Continuation
  then show ?thesis using row_branch_not_Continuation by blast
next
  case UnparseableDate
  then show ?thesis using assms by (simp add: process_row_def)
next
  case NewTransaction
  then have st': "st' = \<lparr> results = push_row st, row = Some (new_row (type st) v), type = type st \<rparr>"
    using assms(3) by (simp add: process_row_def)
  have "produced dp (new_row (type st) v)"
    using row_branch_NewTransaction[OF NewTransaction] assms(1)
    by (simp add: new_row_produced)
  then show ?thesis
    using push_row_ok[OF assms(2)] assms(2) by (simp add: st' state_ok_def)
qed

lemma process_rows_total: "\<exists>st'. process_rows dp st vs = Inr st'"
proof (induction vs arbitrary: st)
  case Nil
  then show ?case by simp
next
  case (Cons v vs)
  obtain st1 where "process_row dp st v = Inr st1" using process_row_total by blast
  then show ?case using Cons.IH[of st1] by simp
qed

lemma process_rows_ok:
  "list_all row_wf vs \<Longrightarrow> state_ok dp st \<Longrightarrow> process_rows dp st vs = Inr st' \<Longrightarrow> state_ok dp st'"
proof (induction vs arbitrary: st)
  case Nil
  then show ?case by simp
next
  case (Cons v vs)
  obtain st1 where st1: "process_row dp st v = Inr st1" using process_row_total by blast
  then have "state_ok dp st1" using Cons.prems process_row_ok by auto
  then show ?case using Cons st1 by simp
qed

lemma header_check_never_rejects: "strict_eq (js_not a) (Str s) = False"
  by (simp add: strict_eq_def js_not_def)

lemma processPageContent_cases:
  "processPageContent dp c =
     (if length (page_rows c) < 3 then Inr []
      else if length (page_rows c) = 3
      then Inl (TypeError ''Cannot convert undefined or null to object'')
      else (case process_rows dp \<lparr> results = [], row = None, type = Null \<rparr>
                   (drop 3 (take (length (page_rows c) - 2) (page_rows c))) of
              Inl e \<Rightarrow> Inl e | Inr st \<Rightarrow> Inr (push_row st)))"
  by (auto simp: processPageContent_def Let_def header_check_never_rejects)

lemma processPageContent_produced:
  assumes "processPageContent dp c = Inr ts"
  shows "list_all (produced dp) ts"
proof -
  let ?rows = "drop 3 (take (length (page_rows c) - 2) (page_rows c))"
  let ?st0 = "\<lparr> results = [], row = None, type = Null \<rparr>"
  have wf: "list_all row_wf ?rows"
    using page_rows_wf[of c] by (auto simp: list_all_iff dest: in_set_dropD in_set_takeD)
  have ok0: "state_ok dp ?st0" by (simp add: state_ok_def)
  obtain st where st: "process_rows dp ?st0 ?rows = Inr st" using process_rows_total by blast
  have "state_ok dp st" using process_rows_ok[OF wf ok0 st] .
  then have "list_all (produced dp) (push_row st)" by (rule push_row_ok)
  then show ?thesis
    using assms st by (auto simp: processPageContent_cases split: if_splits)
qed

lemma processPageContent_total:
  "length (page_rows c) \<noteq> 3 \<Longrightarrow> \<exists>ts. processPageContent dp c = Inr ts"
  using process_rows_total[of dp "\<lparr> results = [], row = None, type = Null \<rparr>"
      "drop 3 (take (length (page_rows c) - 2) (page_rows c))"]
  by (auto simp: processPageContent_cases)

section \<open>The fallback chains\<close>

lemma row_wf_lookup: "row_wf v \<Longrightarrow> map_of v k = Some s \<Longrightarrow> s \<noteq> []"
  using map_of_obj_values[of v k s] by (auto simp: row_wf_def list_all_iff)

lemma first_nonempty_Cons:
  "row_wf v \<Longrightarrow> first_nonempty v (k # ks) = js_or (row_get v k) (first_nonempty v ks)"
  using row_wf_lookup[of v k]
  by (cases "map_of v k") (simp_all add: js_or_def row_get_def)

lemma first_nonempty_single: "row_wf v \<Longrightarrow> first_nonempty v [k] = row_get v k"
  using row_wf_lookup[of v k]
  by (cases "map_of v k") (simp_all add: row_get_def)

lemma first_nonempty_chain:
  "row_wf v \<Longrightarrow> first_nonempty v (k # k' # ks) = js_or (row_get v k) (first_nonempty v (k' # ks))"
  by (rule first_nonempty_Cons)

lemma js_or_assoc: "js_or (js_or a b) c = js_or a (js_or b c)"
  by (simp add: js_or_def)

lemma new_row_chains:
  assumes "row_wf v"
  shows "new_row ty v =
    \<lparr> Date = first_nonempty v [9, 7], Type = ty, Description = row_get v 21,
      DailyCashPct = first_nonempty v [85, 83], DailyCashAmt = first_nonempty v [89],
      Amount = first_nonempty v [111, 110, 109, 108, 107] \<rparr>"
  by (simp add: new_row_def first_nonempty_chain[OF assms] first_nonempty_single[OF assms]
      js_or_assoc del: first_nonempty.simps)


section \<open>The type of a record on pages whose markers sit at bucket 7\<close>

lemma row_branch_TypeMarker: "row_branch dp v = TypeMarker \<Longrightarrow> length (obj_keys v) = 1"
  by (simp add: row_branch_def Let_def split: if_splits)

lemma marker_type:
  assumes "row_wf v" "marker_at_7 v" "row_branch dp v = TypeMarker"
  shows "null_or_str (row_get v 7)"
proof -
  have "length (obj_keys v) = 1" using assms(3) by (rule row_branch_TypeMarker)
  then obtain s where s: "map_of v 7 = Some s"
    using assms(2) by (auto simp: marker_at_7_def split: option.splits)
  then have "s \<noteq> []" using assms(1) by (simp add: row_wf_lookup)
  then show ?thesis using s by (simp add: row_get_def null_or_str_def)
qed

lemma push_row_types:
  "types_ok st \<Longrightarrow> list_all (\<lambda>t. null_or_str (Type t)) (push_row st)"
  by (auto simp: types_ok_def push_row_def split: option.splits)

lemma process_row_types:
  assumes "row_wf v" "marker_at_7 v" "types_ok st" "process_row dp st v = Inr st'"
  shows "types_ok st'"
proof (cases "row_branch dp v")
  case TypeMarker
  then have "st' = \<lparr> results = push_row st, row = None, type = row_get v 7 \<rparr>"
    using assms(4) by (simp add: process_row_def)
  then show ?thesis
    using push_row_types[OF assms(3)] marker_type[OF assms(1,2) TypeMarker]
    by (simp add: types_ok_def)
next
  case MissingDescription
  then show ?thesis using assms by (simp add: process_row_def)
next
  case Continuation
  then show ?thesis using row_branch_not_Continuation by blast
next
  case UnparseableDate
  then show ?thesis using assms by (simp add: process_row_def)
next
  case NewTransaction
  then have "st' = \<lparr> results = push_row st, row = Some (new_row (type st) v), type = type st \<rparr>"
    using assms(4) by (simp add: process_row_def)
  then show ?thesis
    using push_row_types[OF assms(3)] assms(3) by (simp add: types_ok_def new_row_def)
qed

lemma process_rows_types:
  "list_all row_wf vs \<Longrightarrow> list_all marker_at_7 vs \<Longrightarrow> types_ok st \<Longrightarrow>
   process_rows dp st vs = Inr st' \<Longrightarrow> types_ok st'"
proof (induction vs arbitrary: st)
  case Nil
  then show ?case by simp
next
  case (Cons v vs)
  obtain st1 where st1: "process_row dp st v = Inr st1" using process_row_total by blast
  then have "types_ok st1" using Cons.prems process_row_types by auto
  then show ?case using Cons st1 by simp
qed

lemma body_rows_wf: "list_all row_wf (body_rows c)"
  using page_rows_wf[of c]
  by (auto simp: body_rows_def list_all_iff dest: in_set_dropD in_set_takeD)

lemma processPageContent_types:
  assumes "processPageContent dp c = Inr ts" and "list_all marker_at_7 (body_rows c)"
  shows "list_all (\<lambda>t. null_or_str (Type t)) ts"
proof -
  let ?st0 = "\<lparr> results = [], row = None, type = Null \<rparr>"
  have ok0: "types_ok ?st0" by (simp add: types_ok_def null_or_str_def)
  obtain st where st: "process_rows dp ?st0 (body_rows c) = Inr st"
    using process_rows_total by blast
  have "types_ok st" using process_rows_types[OF body_rows_wf assms(2) ok0 st] .
  then have "list_all (\<lambda>t. null_or_str (Type t)) (push_row st)" by (rule push_row_types)
  then show ?thesis
    using assms(1) st by (auto simp: processPageContent_cases body_rows_def split: if_splits)
qed


section \<open>The page loop on a document of the PDF library\<close>

lemma parse_pages_pdf_document:
  "1 \<le> i \<Longrightarrow>
   parse_pages dp (pdf_document pages) i acc = collect_pages dp (drop (i - 1) (butlast pages)) acc"
proof (induction dp "pdf_document pages" i acc rule: parse_pages.induct)
  case (1 dp i acc)
  show ?case
  proof (cases "i < length pages")
    case True
    then have lt: "i - 1 < length (butlast pages)" using "1.prems" by simp
    have nth: "butlast pages ! (i - 1) = pages ! (i - 1)"
      using lt by (simp add: nth_butlast)
    have dr: "drop (i - 1) (butlast pages) = pages ! (i - 1) # drop i (butlast pages)"
      using Cons_nth_drop_Suc[OF lt] nth "1.prems" by simp
    have gp: "getPage (pdf_document pages) i = Inr \<lparr> getTextContent = Inr (pages ! (i - 1)) \<rparr>"
      using True "1.prems" by (simp add: pdf_document_def)
    have np: "i < numPages (pdf_document pages)"
      using True by (simp add: pdf_document_def)
    show ?thesis
    proof (cases "processPageContent dp (pages ! (i - 1))")
      case (Inl e)
      then show ?thesis
        using np gp dr by (subst parse_pages.simps) simp
    next
      case (Inr pageResults)
      have "parse_pages dp (pdf_document pages) (Suc i) (acc @ pageResults) =
            collect_pages dp (drop (Suc i - 1) (butlast pages)) (acc @ pageResults)"
        using "1.hyps"[OF np gp _ Inr] by simp
      then show ?thesis
        using np gp dr Inr by (subst parse_pages.simps) simp
    qed
  next
    case False
    then have "drop (i - 1) (butlast pages) = []" using "1.prems" by simp
    moreover have "\<not> i < numPages (pdf_document pages)"
      using False by (simp add: pdf_document_def)
    ultimately show ?thesis by (subst parse_pages.simps) simp
  qed
qed

lemma parseStatement_pdf_document:
  "parseStatement dp (pdf_document pages) = collect_pages dp (butlast pages) []"
  using parse_pages_pdf_document[of 1 dp pages "[]"] by (simp add: parseStatement_def)


section \<open>Sorting by the comparison function\<close>

lemma SortCompare_comparator:
  "Date_parse dp (Date x) \<noteq> None \<Longrightarrow> Date_parse dp (Date y) \<noteq> None \<Longrightarrow>
   (SortCompare (comparator dp) x y \<le> 0) = (parsed_date dp x \<le> parsed_date dp y)"
  by (auto simp: SortCompare_def comparator_def parsed_date_def)

lemma sort_insert_insort:
  "Date_parse dp (Date x) \<noteq> None \<Longrightarrow> list_all (\<lambda>t. Date_parse dp (Date t) \<noteq> None) ys \<Longrightarrow>
   sort_insert (comparator dp) x ys = insort_key (parsed_date dp) x ys"
  by (induction ys) (simp_all add: SortCompare_comparator)

lemma js_sort_sort_key:
  "list_all (\<lambda>t. Date_parse dp (Date t) \<noteq> None) xs \<Longrightarrow>
   js_sort (comparator dp) xs = sort_key (parsed_date dp) xs"
proof (induction xs)
  case Nil
  then show ?case by (simp add: js_sort_def)
next
  case (Cons x xs)
  then have eq: "js_sort (comparator dp) xs = sort_key (parsed_date dp) xs" by simp
  have "list_all (\<lambda>t. Date_parse dp (Date t) \<noteq> None) (sort_key (parsed_date dp) xs)"
    using Cons.prems by (simp add: list_all_iff)
  then have "sort_insert (comparator dp) x (sort_key (parsed_date dp) xs) =
      insort_key (parsed_date dp) x (sort_key (parsed_date dp) xs)"
    using Cons.prems by (simp add: sort_insert_insort)
  then show ?case using eq by (simp add: js_sort_def sort_key_def)
qed

lemma produced_parses: "list_all (produced dp) ts \<Longrightarrow> list_all (\<lambda>t. Date_parse dp (Date t) \<noteq> None) ts"
  by (simp add: list_all_iff produced_def)

lemma parse_pages_produced:
  "parse_pages dp doc i acc = Inr ts \<Longrightarrow> list_all (produced dp) acc \<Longrightarrow> list_all (produced dp) ts"
proof (induction dp doc i acc rule: parse_pages.induct)
  case (1 dp doc i acc)
  show ?case
  proof (cases "i < numPages doc")
    case True
    from "1.prems"(1) True obtain pg c pageResults where
      pg: "getPage doc i = Inr pg" and c: "getTextContent pg = Inr c"
      and pr: "processPageContent dp c = Inr pageResults"
      and rest: "parse_pages dp doc (Suc i) (acc @ pageResults) = Inr ts"
      by (subst (asm) parse_pages.simps) (auto split: sum.splits)
    have "list_all (produced dp) (acc @ pageResults)"
      using "1.prems"(2) processPageContent_produced[OF pr] by simp
    then show ?thesis using "1.IH"[OF True pg c pr rest] by simp
  next
    case False
    then have "ts = acc" using "1.prems"(1) by (subst (asm) parse_pages.simps) simp
    then show ?thesis using "1.prems"(2) by simp
  qed
qed

lemma parseStatement_produced: "parseStatement dp doc = Inr ts \<Longrightarrow> list_all (produced dp) ts"
  unfolding parseStatement_def by (erule parse_pages_produced) simp

lemma parse_statements_Inr:
  "parse_statements dp gd ss acc decoded = (Inr rs, decoded') \<Longrightarrow>
   \<exists>docs datas. map (\<lambda>s. gd (element s)) ss = map Inr docs
     \<and> map (parseStatement dp) docs = map Inr datas
     \<and> rs = acc @ concat datas \<and> decoded' = decoded @ map element ss"
proof (induction ss arbitrary: acc decoded)
  case Nil
  then show ?case by simp
next
  case (Cons s ss)
  from Cons.prems obtain doc data where
    doc: "gd (element s) = Inr doc" and data: "parseStatement dp doc = Inr data"
    and rest: "parse_statements dp gd ss (acc @ data) (decoded @ [element s]) = (Inr rs, decoded')"
    by (auto split: sum.splits)
  from Cons.IH[OF rest] obtain docs datas where
    "map (\<lambda>s. gd (element s)) ss = map Inr docs"
    "map (parseStatement dp) docs = map Inr datas"
    "rs = (acc @ data) @ concat datas" "decoded' = (decoded @ [element s]) @ map element ss"
    by blast
  then have "map (\<lambda>s. gd (element s)) (s # ss) = map Inr (doc # docs)
    \<and> map (parseStatement dp) (doc # docs) = map Inr (data # datas)
    \<and> rs = acc @ concat (data # datas) \<and> decoded' = decoded @ map element (s # ss)"
    using doc data by simp
  then show ?case by blast
qed

lemma datas_produced:
  "map (parseStatement dp) docs = map Inr datas \<Longrightarrow> list_all (produced dp) (concat datas)"
proof (induction docs arbitrary: datas)
  case Nil
  then show ?case by simp
next
  case (Cons doc docs)
  then obtain data datas' where d: "datas = data # datas'" by (cases datas) auto
  then have "parseStatement dp doc = Inr data" "map (parseStatement dp) docs = map Inr datas'"
    using Cons.prems by auto
  then show ?case using Cons.IH[of datas'] parseStatement_produced[of dp doc data] d by simp
qed


section \<open>Claims about one page\<close>

text \<open>
  C9. A page whose reconstructed row count is below three yields exactly zero
  transactions, and no error.
\<close>

theorem few_rows_empty:
  "length (page_rows c) < 3 \<Longrightarrow> processPageContent dp c = Inr []"
  by (simp add: processPageContent_def)

text \<open>The page with the two rows "Apple Card" and "Page 1".\<close>

theorem few_rows_empty_witness:
  "length (page_rows two_row_page) < 3
   \<and> processPageContent example_Date_parse two_row_page = Inr []"
proof -
  have h: "length (page_rows two_row_page) < 3" by code_simp
  show ?thesis using h few_rows_empty[OF h] by simp
qed

text \<open>
  C5. The page parser is claimed never to fail, a page with exactly three rows included.
  On such a page line 71 leaves one row, line 74 takes it as the whole header, and
  \<^verbatim>\<open>Object.values(header[1])\<close> on line 76 is applied to \<^verbatim>\<open>undefined\<close>: the parser
  throws a \<^verbatim>\<open>TypeError\<close>, whatever \<^verbatim>\<open>Date.parse\<close> does. By \<open>processPageContent_total\<close>
  this is the only row count on which it fails.
\<close>

theorem three_row_page_faults:
  "length (page_rows three_row_page) = 3
   \<and> processPageContent dp three_row_page =
       Inl (TypeError ''Cannot convert undefined or null to object'')"
proof -
  have h: "length (page_rows three_row_page) = 3" by code_simp
  then show ?thesis by (simp add: processPageContent_cases)
qed

text \<open>
  C1. A page is claimed to be skipped unless its first two rows read "Statement" and
  "Apple Card Customer". Lines 78 and 82 compare \<^verbatim>\<open>!text?.toLowerCase()\<close>, a boolean, with
  a string, which is never equal (\<open>header_check_never_rejects\<close>), so no page is skipped
  for its header: the page whose first rows read Foo, Bar and Baz yields its transaction.
\<close>

theorem foreign_header_accepted:
  "map first_value (take 3 (page_rows foreign_page)) = [Str ''Foo'', Str ''Bar'', Str ''Baz'']
   \<and> processPageContent example_Date_parse foreign_page =
       Inr [\<lparr> Date = Str ''03/01/2024'', Type = Null, Description = Str ''Coffee Shop'',
              DailyCashPct = Undefined, DailyCashAmt = Undefined, Amount = Str ''$4.50'' \<rparr>]"
  by code_simp

text \<open>
  C2. A row with a description fragment as its only column, after an open transaction,
  is claimed to extend that transaction's description and to leave the current type
  alone. On the example page the fragment "Store #1234" follows the transaction "Coffee
  Shop" under the type "Purchases": the description stays "Coffee Shop", the transaction
  is closed, and the next transaction has the type \<^verbatim>\<open>undefined\<close>, since the row was taken
  for a type marker on line 97.
\<close>

theorem continuation_row_not_appended:
  "processPageContent example_Date_parse continuation_page =
     Inr [\<lparr> Date = Str ''03/01/2024'', Type = Str ''Purchases'',
            Description = Str ''Coffee Shop'', DailyCashPct = Undefined,
            DailyCashAmt = Undefined, Amount = Str ''$4.50'' \<rparr>,
          \<lparr> Date = Str ''03/02/2024'', Type = Undefined,
            Description = Str ''Book Store'', DailyCashPct = Str ''2%'',
            DailyCashAmt = Str ''$0.40'', Amount = Str ''$20.00'' \<rparr>]"
  by code_simp

text \<open>
  C3, as stated: in every record produced, \<^verbatim>\<open>Type\<close>, the two daily-cash fields and
  \<^verbatim>\<open>Amount\<close> are a string or \<^verbatim>\<open>null\<close>. The transaction of the example page has no
  daily cash and no amount: the three fields are \<^verbatim>\<open>undefined\<close>.
\<close>

theorem undefined_fields_counterexample:
  "processPageContent example_Date_parse bare_page = Inr [tx ''03/01/2024'' Null ''Coffee Shop'']
   \<and> str_or_null (DailyCashPct (tx ''03/01/2024'' Null ''Coffee Shop'')) = False
   \<and> str_or_null (DailyCashAmt (tx ''03/01/2024'' Null ''Coffee Shop'')) = False
   \<and> str_or_null (Amount (tx ''03/01/2024'' Null ''Coffee Shop'')) = False"
  by code_simp

text \<open>
  C3, amended. In every record the page parser produces, \<^verbatim>\<open>Date\<close> and \<^verbatim>\<open>Description\<close>
  are non-empty strings, and the two daily-cash fields and \<^verbatim>\<open>Amount\<close> are each a
  non-empty string or \<^verbatim>\<open>undefined\<close>; \<^verbatim>\<open>Type\<close> is \<^verbatim>\<open>null\<close> or a non-empty string on every
  page where each one-column row between header and footer has its text at bucket 7.
\<close>

theorem produced_fields:
  assumes "processPageContent dp c = Inr ts" and "t \<in> set ts"
  shows "nonempty_str (Date t) \<and> nonempty_str (Description t)
    \<and> str_or_undefined (DailyCashPct t) \<and> str_or_undefined (DailyCashAmt t)
    \<and> str_or_undefined (Amount t)
    \<and> (list_all marker_at_7 (body_rows c) \<longrightarrow> null_or_str (Type t))"
proof -
  have "produced dp t"
    using processPageContent_produced[OF assms(1)] assms(2) by (simp add: list_all_iff)
  moreover have "null_or_str (Type t)" if "list_all marker_at_7 (body_rows c)"
    using processPageContent_types[OF assms(1) that] assms(2) by (simp add: list_all_iff)
  ultimately show ?thesis by (simp add: produced_def)
qed

text \<open>
  The page with the marker "Purchases" and the transaction "Coffee Shop" of 1 March with
  the amount "4.50".
\<close>

theorem produced_fields_witness:
  "processPageContent example_Date_parse purchases_page =
     Inr [\<lparr> Date = Str ''03/01/2024'', Type = Str ''Purchases'',
            Description = Str ''Coffee Shop'', DailyCashPct = Undefined,
            DailyCashAmt = Undefined, Amount = Str ''4.50'' \<rparr>]
   \<and> list_all marker_at_7 (body_rows purchases_page)
   \<and> nonempty_str (Str ''03/01/2024'') \<and> nonempty_str (Str ''Coffee Shop'')
   \<and> str_or_undefined Undefined \<and> str_or_undefined (Str ''4.50'')
   \<and> null_or_str (Str ''Purchases'')"
proof -
  let ?t = "\<lparr> Date = Str ''03/01/2024'', Type = Str ''Purchases'',
            Description = Str ''Coffee Shop'', DailyCashPct = Undefined,
            DailyCashAmt = Undefined, Amount = Str ''4.50'' \<rparr>"
  have h: "processPageContent example_Date_parse purchases_page = Inr [?t]"
    by code_simp
  have m: "list_all marker_at_7 (body_rows purchases_page)"
    by code_simp
  show ?thesis
    using h m produced_fields[OF h, of ?t] by simp
qed

text \<open>
  C8. A row of grouped text with a parseable date, looked up at bucket 9 and else at
  bucket 7, and a description at bucket 21 is handled as a new transaction, and the
  record it opens takes its fields by the fallback chains of the specification: the
  daily-cash percentage from bucket 85, else 83; the daily-cash amount from bucket 89;
  the amount from the first non-empty of buckets 111, 110, 109, 108, 107.
\<close>

theorem new_transaction_fields:
  assumes "row_wf v"
    and "Date_parse dp (first_nonempty v [9, 7]) \<noteq> None"
    and "truthy (row_get v 21)"
  shows "row_branch dp v = NewTransaction
    \<and> process_row dp st v =
        Inr \<lparr> results = push_row st,
              row = Some \<lparr> Date = first_nonempty v [9, 7], Type = type st,
                           Description = row_get v 21,
                           DailyCashPct = first_nonempty v [85, 83],
                           DailyCashAmt = first_nonempty v [89],
                           Amount = first_nonempty v [111, 110, 109, 108, 107] \<rparr>,
              type = type st \<rparr>"
proof -
  have date: "Date_parse dp (js_or (row_get v 9) (row_get v 7)) \<noteq> None"
    using assms(2)
    by (simp add: first_nonempty_chain[OF assms(1)] first_nonempty_single[OF assms(1)]
        del: first_nonempty.simps)
  have many: "length (obj_keys v) \<noteq> 1"
  proof
    assume "length (obj_keys v) = 1"
    then obtain k s where v: "v = [(k, s)]" using single_column by blast
    then have "k = 21" using assms(3) by (auto simp: row_get_def split: if_splits)
    then have "js_or (row_get v 9) (row_get v 7) = Undefined"
      by (simp add: v row_get_def js_or_def)
    then show False using date by (simp add: Date_parse_def)
  qed
  have br: "row_branch dp v = NewTransaction"
    using many date assms(3) by (simp add: row_branch_def Let_def)
  show ?thesis
    using br new_row_chains[OF assms(1), of "type st"] by (simp add: process_row_def)
qed

theorem new_transaction_fields_witness:
  "row_wf [(9, ''03/02/2024''), (21, ''Book Store''), (85, ''2%''), (89, ''$0.40''),
           (110, ''$20.00'')]
   \<and> process_row example_Date_parse \<lparr> results = [], row = None, type = Str ''Purchases'' \<rparr>
        [(9, ''03/02/2024''), (21, ''Book Store''), (85, ''2%''), (89, ''$0.40''),
         (110, ''$20.00'')] =
      Inr \<lparr> results = [],
            row = Some \<lparr> Date = Str ''03/02/2024'', Type = Str ''Purchases'',
                         Description = Str ''Book Store'', DailyCashPct = Str ''2%'',
                         DailyCashAmt = Str ''$0.40'', Amount = Str ''$20.00'' \<rparr>,
            type = Str ''Purchases'' \<rparr>"
proof -
  let ?v = "[(9, ''03/02/2024''), (21, ''Book Store''), (85, ''2%''), (89, ''$0.40''),
           (110::int, ''$20.00'')]"
  have h1: "row_wf ?v" by code_simp
  have h2: "Date_parse example_Date_parse (first_nonempty ?v [9, 7]) \<noteq> None" by code_simp
  have h3: "truthy (row_get ?v 21)" by code_simp
  show ?thesis
    using h1 new_transaction_fields[OF h1 h2 h3,
        of "\<lparr> results = [], row = None, type = Str ''Purchases'' \<rparr>"]
    by (simp add: push_row_def row_get_def)
qed

text \<open>
  C10, as stated: every row with exactly one column is handled by the type-marker
  branch. A row whose only text sits at bucket 7 and parses as a date is not: it is
  skipped for its missing description.
\<close>

theorem single_column_date_counterexample:
  "length (obj_keys [(7, ''03/01/2024'')]) = 1
   \<and> row_branch example_Date_parse [(7, ''03/01/2024'')] = MissingDescription"
  by code_simp

text \<open>
  C10, amended. No row takes the continuation branch; a row with exactly one column is
  handled by the type-marker branch, unless its text sits at bucket 7 and parses as a
  date, when it is skipped for its missing description. Hence the row loop, which would
  fail only in the continuation branch, returns on every sequence of rows.
\<close>

theorem continuation_unreachable:
  "row_branch dp v \<noteq> Continuation
   \<and> (length (obj_keys v) = 1 \<longrightarrow>
        row_branch dp v =
          (if Date_parse dp (row_get v 7) = None then TypeMarker else MissingDescription))
   \<and> (\<exists>st'. process_rows dp st vs = Inr st')"
  using row_branch_not_Continuation row_branch_single process_rows_total by blast

theorem continuation_unreachable_witness:
  "row_branch example_Date_parse [(7, ''03/01/2024'')] \<noteq> Continuation
   \<and> length (obj_keys [(7::int, ''03/01/2024'')]) = 1
   \<and> row_branch example_Date_parse [(7, ''03/01/2024'')] = MissingDescription
   \<and> (\<exists>st'. process_rows example_Date_parse \<lparr> results = [], row = None, type = Null \<rparr>
          [[(7, ''03/01/2024'')]] = Inr st')"
proof -
  have h: "length (obj_keys [(7::int, ''03/01/2024'')]) = 1" by code_simp
  have d: "Date_parse example_Date_parse (row_get [(7, ''03/01/2024'')] 7) \<noteq> None"
    by code_simp
  show ?thesis
    using h d continuation_unreachable[of example_Date_parse "[(7, ''03/01/2024'')]"
        "\<lparr> results = [], row = None, type = Null \<rparr>" "[[(7, ''03/01/2024'')]]"]
    by simp
qed


section \<open>What validation lets through\<close>

lemma parse_statements_decoded:
  "\<exists>xs. snd (parse_statements dp gd ss acc decoded) = decoded @ xs"
proof (induction ss arbitrary: acc decoded)
  case Nil
  then show ?case by simp
next
  case (Cons s ss)
  show ?case
  proof (cases "gd (element s)")
    case (Inl e)
    then show ?thesis by simp
  next
    case (Inr doc)
    show ?thesis
    proof (cases "parseStatement dp doc")
      case (Inl e)
      then show ?thesis using Inr by simp
    next
      case (Inr data)
      obtain xs where
        "snd (parse_statements dp gd ss (acc @ data) (decoded @ [element s])) =
           (decoded @ [element s]) @ xs"
        using Cons.IH by blast
      then show ?thesis using Inr \<open>gd (element s) = Inr doc\<close> by simp
    qed
  qed
qed

lemma parse_statements_first:
  "\<exists>xs. snd (parse_statements dp gd (s # ss) acc decoded) = decoded @ element s # xs"
proof (cases "gd (element s)")
  case (Inl e)
  then show ?thesis by simp
next
  case (Inr doc)
  show ?thesis
  proof (cases "parseStatement dp doc")
    case (Inl e)
    then show ?thesis using Inr by simp
  next
    case (Inr data)
    obtain xs where
      "snd (parse_statements dp gd ss (acc @ data) (decoded @ [element s])) =
         (decoded @ [element s]) @ xs"
      using parse_statements_decoded by blast
    then show ?thesis using Inr \<open>gd (element s) = Inr doc\<close> by simp
  qed
qed

lemma snd_parse:
  "validateInput src = Inr statements \<Longrightarrow>
   snd (parse dp gd src) = snd (parse_statements dp gd statements [] [])"
  by (simp add: parse_def split: prod.splits sum.splits)

lemma validation_rejects:
  assumes "is_Uint8Array src = False"
    and "(case src of Array xs \<Rightarrow> every is_Uint8Array xs | _ \<Rightarrow> False) = False"
  shows "\<exists>msg. parse dp gd src = (Inl (TypeError msg), [])"
  using assms by (cases src) (simp_all add: parse_def validateInput_def)


section \<open>Claims about documents and their aggregation\<close>

text \<open>
  C4. The document parser is claimed to parse pages 2 to \<open>N\<close>, skipping only the cover
  page. The loop of lines 168 to 187 counts \<open>i\<close> from 1 to \<open>N - 1\<close>, logs page \<open>i + 1\<close> and
  asks for \<^verbatim>\<open>doc.getPage(i)\<close>; the PDF library counts pages from 1, so the pages read are
  1 to \<open>N - 1\<close> (\<open>parseStatement_pdf_document\<close>). On the document with an empty cover
  page and one statement page, the statement page is page 2, it holds a transaction, and
  the document parser returns none.
\<close>

theorem cover_parsed_last_page_dropped:
  "numPages two_page_document = 2
   \<and> getTextContent (projr (getPage two_page_document 2)) = Inr bare_page
   \<and> processPageContent example_Date_parse bare_page = Inr [tx ''03/01/2024'' Null ''Coffee Shop'']
   \<and> parseStatement example_Date_parse two_page_document = Inr []"
  by code_simp

text \<open>
  C6. An input that is neither a byte buffer nor a collection of byte buffers is claimed
  to fail with a \<^verbatim>\<open>TypeError\<close> before anything is decoded. The array
  \<^verbatim>\<open>[new Uint8Array([1]), ,]\<close> has length 2 and a hole at index 1. \<^verbatim>\<open>every\<close> on line 58
  does not visit the hole, so \<^verbatim>\<open>validateInput\<close> returns the array, and the loop of line
  90, which runs over both indices, hands its first element to the decoder, whatever the
  decoder and \<^verbatim>\<open>Date.parse\<close> do. Without holes the claim holds (\<open>validation_rejects\<close>).
\<close>

theorem sparse_array_decoded:
  "is_Uint8Array (Array [Some (Uint8Array [1]), None]) = False
   \<and> is_Uint8Array_array (Array [Some (Uint8Array [1]), None]) = False
   \<and> validateInput (Array [Some (Uint8Array [1]), None]) = Inr [Some (Uint8Array [1]), None]
   \<and> take 1 (snd (parse dp gd (Array [Some (Uint8Array [1]), None]))) = [Uint8Array [1]]"
proof -
  have v: "validateInput (Array [Some (Uint8Array [1]), None]) = Inr [Some (Uint8Array [1]), None]"
    by (simp add: validateInput_def)
  obtain xs where
    "snd (parse_statements dp gd [Some (Uint8Array [1]), None] [] []) = [] @ Uint8Array [1] # xs"
    using parse_statements_first[of dp gd "Some (Uint8Array [1])" "[None]" "[]" "[]"] by auto
  then have "take 1 (snd (parse dp gd (Array [Some (Uint8Array [1]), None]))) = [Uint8Array [1]]"
    by (simp add: snd_parse v)
  then show ?thesis
    using v by (simp add: is_Uint8Array_array_def)
qed

text \<open>
  C7. When the aggregator succeeds, every payload was decoded and parsed, and the
  returned list holds the transactions of the documents, concatenated in input order
  and then sorted by parsed date: it is a rearrangement of the concatenation, ascending
  in the parsed date, and the transactions of any one date keep the order they have in
  the concatenation. Every date in it parses.
\<close>

theorem parse_sorted_stable:
  assumes "parse dp gd src = (Inr out, decoded)"
  shows "\<exists>statements docs datas.
     validateInput src = Inr statements
     \<and> map (\<lambda>s. gd (element s)) statements = map Inr docs
     \<and> map (parseStatement dp) docs = map Inr datas
     \<and> mset out = mset (concat datas)
     \<and> sorted (map (parsed_date dp) out)
     \<and> (\<forall>k. filter (\<lambda>t. parsed_date dp t = k) out
             = filter (\<lambda>t. parsed_date dp t = k) (concat datas))
     \<and> list_all (\<lambda>t. Date_parse dp (Date t) \<noteq> None) out"
proof -
  from assms obtain statements rs where
    v: "validateInput src = Inr statements"
    and ps: "parse_statements dp gd statements [] [] = (Inr rs, decoded)"
    and out: "out = js_sort (comparator dp) rs"
    by (auto simp: parse_def split: sum.splits prod.splits)
  from parse_statements_Inr[OF ps] obtain docs datas where
    d: "map (\<lambda>s. gd (element s)) statements = map Inr docs"
      "map (parseStatement dp) docs = map Inr datas"
    and rs: "rs = concat datas"
    by auto
  have pr: "list_all (\<lambda>t. Date_parse dp (Date t) \<noteq> None) rs"
    using datas_produced[OF d(2)] rs produced_parses by simp
  have sk: "out = sort_key (parsed_date dp) rs"
    using out js_sort_sort_key[OF pr] by simp
  have "mset out = mset (concat datas)" by (simp add: sk rs)
  moreover have "sorted (map (parsed_date dp) out)" by (simp add: sk)
  moreover have "\<forall>k. filter (\<lambda>t. parsed_date dp t = k) out
             = filter (\<lambda>t. parsed_date dp t = k) (concat datas)"
    by (simp add: sk rs sort_key_stable)
  moreover have "list_all (\<lambda>t. Date_parse dp (Date t) \<noteq> None) out"
    using pr by (simp add: sk list_all_iff)
  ultimately show ?thesis using v d by blast
qed

text \<open>
  Two payloads: the first document holds "Book Store" of 2 March and "Coffee Shop" of
  1 March, the second "Bakery" of 1 March.
\<close>

theorem parse_sorted_stable_witness:
  "parse example_Date_parse example_getDocument (Array [Some (Uint8Array [1]), Some (Uint8Array [2])]) =
     (Inr [tx ''03/01/2024'' Null ''Coffee Shop'', tx ''03/01/2024'' Null ''Bakery'',
           tx ''03/02/2024'' Null ''Book Store''],
      [Uint8Array [1], Uint8Array [2]])
   \<and> (\<exists>statements docs datas.
     validateInput (Array [Some (Uint8Array [1]), Some (Uint8Array [2])]) = Inr statements
     \<and> map (\<lambda>s. example_getDocument (element s)) statements = map Inr docs
     \<and> map (parseStatement example_Date_parse) docs = map Inr datas
     \<and> mset [tx ''03/01/2024'' Null ''Coffee Shop'', tx ''03/01/2024'' Null ''Bakery'',
           tx ''03/02/2024'' Null ''Book Store''] = mset (concat datas)
     \<and> sorted (map (parsed_date example_Date_parse)
          [tx ''03/01/2024'' Null ''Coffee Shop'', tx ''03/01/2024'' Null ''Bakery'',
           tx ''03/02/2024'' Null ''Book Store''])
     \<and> (\<forall>k. filter (\<lambda>t. parsed_date example_Date_parse t = k)
            [tx ''03/01/2024'' Null ''Coffee Shop'', tx ''03/01/2024'' Null ''Bakery'',
             tx ''03/02/2024'' Null ''Book Store'']
             = filter (\<lambda>t. parsed_date example_Date_parse t = k) (concat datas))
     \<and> list_all (\<lambda>t. Date_parse example_Date_parse (Date t) \<noteq> None)
          [tx ''03/01/2024'' Null ''Coffee Shop'', tx ''03/01/2024'' Null ''Bakery'',
           tx ''03/02/2024'' Null ''Book Store''])"
proof -
  have h: "parse example_Date_parse example_getDocument
      (Array [Some (Uint8Array [1]), Some (Uint8Array [2])]) =
     (Inr [tx ''03/01/2024'' Null ''Coffee Shop'', tx ''03/01/2024'' Null ''Bakery'',
           tx ''03/02/2024'' Null ''Book Store''],
      [Uint8Array [1], Uint8Array [2]])"
    by code_simp
  show ?thesis
    using h parse_sorted_stable[OF h] by (rule conjI)
qed

end
